theory Spec2Isabelle
  imports Main
begin

section \<open>Validation of ICU message templates (goog.i18n.messages)\<close>

text \<open>
  A shallow embedding of \<^verbatim>\<open>closure/goog/i18n/messages.js\<close>: the function
  \<^verbatim>\<open>declareIcuTemplate\<close>, the checks it runs when the code is not compiled, and the two
  regular expressions those checks use. Exceptions are values of a sum type, the
  \<^verbatim>\<open>lastIndex\<close> field of the module's global regular expression is passed explicitly, and
  each loop is a recursive function.
\<close>

subsection \<open>JavaScript values\<close>

text \<open>
  The values an options bag can hold. The checks read of a value only its truthiness, its
  \<^verbatim>\<open>typeof\<close> and, for an object, its own enumerable properties, so a number is kept as an
  integer or NaN (every other number is truthy, like a non-zero integer), and symbols and
  functions carry no content. An object is the list of its own enumerable properties in the
  order of \<^verbatim>\<open>Object.keys\<close>; an array is such an object whose keys are its indices.
  A string is a list of characters; the regular expressions below tell apart only ASCII
  characters and treat every other character alike.
\<close>

datatype jsval =
    JUndefined
  | JNull
  | JBool bool
  | JNum int
  | JNaN
  | JBigInt int
  | JStr string
  | JSymbol
  | JFunction
  | JObj "(string \<times> jsval) list"

type_synonym jsobject = "(string \<times> jsval) list"

fun truthy :: "jsval \<Rightarrow> bool" where
  "truthy JUndefined = False"
| "truthy JNull = False"
| "truthy (JBool b) = b"
| "truthy (JNum n) = (n \<noteq> 0)"
| "truthy JNaN = False"
| "truthy (JBigInt n) = (n \<noteq> 0)"
| "truthy (JStr s) = (s \<noteq> [])"
| "truthy JSymbol = True"
| "truthy JFunction = True"
| "truthy (JObj ps) = True"

fun typeof :: "jsval \<Rightarrow> string" where
  "typeof JUndefined = ''undefined''"
| "typeof JNull = ''object''"
| "typeof (JBool b) = ''boolean''"
| "typeof (JNum n) = ''number''"
| "typeof JNaN = ''number''"
| "typeof (JBigInt n) = ''bigint''"
| "typeof (JStr s) = ''string''"
| "typeof JSymbol = ''symbol''"
| "typeof JFunction = ''function''"
| "typeof (JObj ps) = ''object''"

text \<open>Reading a property: a name the object does not have reads as \<^verbatim>\<open>undefined\<close>.\<close>

definition js_get :: "jsobject \<Rightarrow> string \<Rightarrow> jsval" where
  "js_get obj k = (case map_of obj k of None \<Rightarrow> JUndefined | Some v \<Rightarrow> v)"

definition Object_keys :: "jsobject \<Rightarrow> string list" where
  "Object_keys obj = map fst obj"

subsection \<open>Assertion failures\<close>

text \<open>
  One constructor for each message format of the source; the arguments are the values that
  the format's \<^verbatim>\<open>%s\<close> places receive, in order.
\<close>

datatype error =
    ClosureStylePlaceholder string string
  | NoDescription
  | InvalidDescription jsval
  | InvalidMeaning jsval
  | InvalidMap string jsval
  | UnknownPlaceholder string string
  | InvalidPlaceholderValue string string jsval
  | UnknownOptionName string

text \<open>
  Modelled from the spec: \<^verbatim>\<open>assert\<close> of \<^verbatim>\<open>goog.asserts\<close>, which this module imports
  and whose file is not part of the sources at hand. The spec says that every violation is
  reported through one assertion-style failure channel and that the first violation ends
  the validation: a condition that does not hold raises the failure with its message.
\<close>

definition assert :: "bool \<Rightarrow> error \<Rightarrow> error + unit" where
  "assert condition failure = (if condition then Inr () else Inl failure)"

text \<open>Statement sequencing: a raised failure skips the statements after it.\<close>

fun and_then :: "error + unit \<Rightarrow> error + 'a \<Rightarrow> error + 'a" where
  "and_then (Inl e) k = Inl e"
| "and_then (Inr u) k = k"

subsection \<open>The two regular expressions\<close>

text \<open>
  \<^verbatim>\<open>[a-z_]\<close> and \<^verbatim>\<open>\w\<close> under the flag \<^verbatim>\<open>i\<close> (without \<^verbatim>\<open>u\<close>): case folding maps
  no character outside ASCII to an ASCII letter, so the classes are the ones below.
\<close>

definition is_name_start :: "char \<Rightarrow> bool" where
  "is_name_start c = (c \<in> set ''ABCDEFGHIJKLMNOPQRSTUVWXYZabcdefghijklmnopqrstuvwxyz_'')"

definition is_word_char :: "char \<Rightarrow> bool" where
  "is_word_char c =
     (c \<in> set ''ABCDEFGHIJKLMNOPQRSTUVWXYZabcdefghijklmnopqrstuvwxyz_0123456789'')"

definition not_close_brace :: "char \<Rightarrow> bool" where
  "not_close_brace c = (c \<noteq> CHR ''}'')"

text \<open>
  \<^verbatim>\<open>CLOSURE_PLACEHOLDER_RE = /\{\$([^}]+)}/\<close> tried at the start of a string: the whole
  match (\<^verbatim>\<open>match[0]\<close>) if there is one. The greedy \<^verbatim>\<open>[^}]+\<close> takes every character
  up to the next closing brace; giving characters back cannot help, since the character
  after a shorter run is not a closing brace.
\<close>

fun CLOSURE_PLACEHOLDER_RE_at :: "string \<Rightarrow> string option" where
  "CLOSURE_PLACEHOLDER_RE_at (c # d # rest) =
     (if c = CHR ''{'' \<and> d = CHR ''$'' then
        (let w = takeWhile not_close_brace rest; r = dropWhile not_close_brace rest
         in if w = [] then None
            else (case r of [] \<Rightarrow> None | e # r' \<Rightarrow> Some (c # d # w @ [e])))
      else None)"
| "CLOSURE_PLACEHOLDER_RE_at s = None"

text \<open>\<^verbatim>\<open>CLOSURE_PLACEHOLDER_RE.exec\<close>: the regular expression is not global, so the search
  starts at index 0 and returns the leftmost match, or \<^verbatim>\<open>null\<close>.\<close>

fun CLOSURE_PLACEHOLDER_RE_exec :: "string \<Rightarrow> string option" where
  "CLOSURE_PLACEHOLDER_RE_exec [] = None"
| "CLOSURE_PLACEHOLDER_RE_exec (c # cs) =
     (case CLOSURE_PLACEHOLDER_RE_at (c # cs) of
        Some m \<Rightarrow> Some m
      | None \<Rightarrow> CLOSURE_PLACEHOLDER_RE_exec cs)"

definition assertNoClosureStylePlaceholdersInIcuTemplate :: "string \<Rightarrow> error + unit" where
  "assertNoClosureStylePlaceholdersInIcuTemplate icuTemplate =
     (let match = CLOSURE_PLACEHOLDER_RE_exec icuTemplate
      in assert (match = None)
           (ClosureStylePlaceholder (case match of None \<Rightarrow> [] | Some m \<Rightarrow> m) icuTemplate))"

text \<open>
  \<^verbatim>\<open>ICU_PLACEHOLDER_GLOBAL_RE = /\{([a-z_]\w*)}/ig\<close> tried at the start of a string: the
  captured name (\<^verbatim>\<open>match[1]\<close>) and the length of the match.
\<close>

fun ICU_PLACEHOLDER_GLOBAL_RE_at :: "string \<Rightarrow> (string \<times> nat) option" where
  "ICU_PLACEHOLDER_GLOBAL_RE_at (c # d # rest) =
     (if c = CHR ''{'' \<and> is_name_start d then
        (let w = takeWhile is_word_char rest; r = dropWhile is_word_char rest
         in (case r of
               [] \<Rightarrow> None
             | e # r' \<Rightarrow> if e = CHR ''}'' then Some (d # w, length w + 3) else None))
      else None)"
| "ICU_PLACEHOLDER_GLOBAL_RE_at s = None"

text \<open>The leftmost match in the rest \<open>s\<close> of the string that starts at index \<open>i\<close>: the
  captured name and the index just after the match.\<close>

fun ICU_PLACEHOLDER_GLOBAL_RE_search :: "string \<Rightarrow> nat \<Rightarrow> (string \<times> nat) option" where
  "ICU_PLACEHOLDER_GLOBAL_RE_search [] i = None"
| "ICU_PLACEHOLDER_GLOBAL_RE_search (c # cs) i =
     (case ICU_PLACEHOLDER_GLOBAL_RE_at (c # cs) of
        Some (n, len) \<Rightarrow> Some (n, i + len)
      | None \<Rightarrow> ICU_PLACEHOLDER_GLOBAL_RE_search cs (Suc i))"

text \<open>
  \<^verbatim>\<open>ICU_PLACEHOLDER_GLOBAL_RE.exec\<close>. The regular expression is global: the search
  starts at \<^verbatim>\<open>lastIndex\<close>, a match moves \<^verbatim>\<open>lastIndex\<close> to its end, and a failed
  search (also one with \<^verbatim>\<open>lastIndex\<close> beyond the string) sets it to 0. The result is
  \<^verbatim>\<open>match[1]\<close>, or \<open>None\<close> for \<^verbatim>\<open>null\<close>, with the new \<^verbatim>\<open>lastIndex\<close>.
\<close>

definition ICU_PLACEHOLDER_GLOBAL_RE_exec :: "string \<Rightarrow> nat \<Rightarrow> string option \<times> nat" where
  "ICU_PLACEHOLDER_GLOBAL_RE_exec s lastIndex =
     (if length s < lastIndex then (None, 0)
      else (case ICU_PLACEHOLDER_GLOBAL_RE_search (drop lastIndex s) lastIndex of
              None \<Rightarrow> (None, 0)
            | Some (n, e) \<Rightarrow> (Some n, e)))"

lemma ICU_at_length:
  "ICU_PLACEHOLDER_GLOBAL_RE_at s = Some (n, len) \<Longrightarrow> 0 < len \<and> len \<le> length s"
proof (induction s rule: ICU_PLACEHOLDER_GLOBAL_RE_at.induct)
  case (1 c d rest)
  have "length (takeWhile is_word_char rest) + length (dropWhile is_word_char rest) = length rest"
    by (metis length_append takeWhile_dropWhile_id)
  with 1 show ?case
    by (auto simp: Let_def split: if_splits list.splits)
qed simp_all

lemma ICU_search_bounds:
  "ICU_PLACEHOLDER_GLOBAL_RE_search s i = Some (n, e) \<Longrightarrow> i < e \<and> e \<le> i + length s"
proof (induction s arbitrary: i)
  case Nil
  then show ?case by simp
next
  case (Cons c cs)
  show ?case
  proof (cases "ICU_PLACEHOLDER_GLOBAL_RE_at (c # cs)")
    case None
    with Cons.prems have "ICU_PLACEHOLDER_GLOBAL_RE_search cs (Suc i) = Some (n, e)"
      by simp
    from Cons.IH [OF this] show ?thesis by simp
  next
    case (Some p)
    obtain m len where p: "p = (m, len)" by (cases p)
    from Some p Cons.prems have e: "e = i + len" by simp
    from Some p ICU_at_length have "0 < len \<and> len \<le> length (c # cs)" by blast
    with e show ?thesis by simp
  qed
qed

lemma ICU_exec_bounds:
  "ICU_PLACEHOLDER_GLOBAL_RE_exec s li = (Some n, e) \<Longrightarrow> li < e \<and> e \<le> length s"
  unfolding ICU_PLACEHOLDER_GLOBAL_RE_exec_def
  by (auto split: if_splits option.splits dest!: ICU_search_bounds)

text \<open>
  The loop of \<^verbatim>\<open>gatherIcuPlaceholderNames\<close>:
  \<^verbatim>\<open>while (match = ICU_PLACEHOLDER_GLOBAL_RE.exec(icuTemplate)) resultSet.add(match[1])\<close>.
  It ends because every match moves \<^verbatim>\<open>lastIndex\<close> forward within the string.
\<close>

function gatherIcuPlaceholderNames_loop ::
  "string \<Rightarrow> nat \<Rightarrow> string set \<Rightarrow> string set \<times> nat" where
  "gatherIcuPlaceholderNames_loop icuTemplate lastIndex resultSet =
     (case ICU_PLACEHOLDER_GLOBAL_RE_exec icuTemplate lastIndex of
        (None, lastIndex') \<Rightarrow> (resultSet, lastIndex')
      | (Some name, lastIndex') \<Rightarrow>
          gatherIcuPlaceholderNames_loop icuTemplate lastIndex' (insert name resultSet))"
  by pat_completeness auto
termination
  apply (relation "measure (\<lambda>(s, li, acc). Suc (length s) - li)")
   apply simp
  subgoal for s li acc x1 x2 n
    using ICU_exec_bounds [of s li n x2]
    apply simp
    apply arith
    done
  done

declare gatherIcuPlaceholderNames_loop.simps [simp del]

definition gatherIcuPlaceholderNames :: "string \<Rightarrow> nat \<Rightarrow> string set \<times> nat" where
  "gatherIcuPlaceholderNames icuTemplate lastIndex =
     gatherIcuPlaceholderNames_loop icuTemplate lastIndex {}"

subsection \<open>The checks\<close>

definition VALID_OPTIONS :: "string set" where
  "VALID_OPTIONS = {''description'', ''meaning'', ''example'', ''original_code''}"

text \<open>The loop of \<^verbatim>\<open>assertValidPlaceholderMap\<close> over the keys that are left.\<close>

fun assertValidPlaceholderMap_loop ::
  "string \<Rightarrow> jsobject \<Rightarrow> string set \<Rightarrow> string list \<Rightarrow> error + unit" where
  "assertValidPlaceholderMap_loop mapName placeholderMap allPlaceholderNames [] = Inr ()"
| "assertValidPlaceholderMap_loop mapName placeholderMap allPlaceholderNames
     (placeholderName # keys) =
     and_then
       (assert (placeholderName \<in> allPlaceholderNames)
          (UnknownPlaceholder mapName placeholderName))
       (let placeholderValue = js_get placeholderMap placeholderName
        in and_then
             (assert (typeof placeholderValue = ''string'')
                (InvalidPlaceholderValue mapName placeholderName placeholderValue))
             (assertValidPlaceholderMap_loop mapName placeholderMap allPlaceholderNames keys))"

definition assertValidPlaceholderMap ::
  "string \<Rightarrow> jsobject \<Rightarrow> string set \<Rightarrow> error + unit" where
  "assertValidPlaceholderMap mapName placeholderMap allPlaceholderNames =
     assertValidPlaceholderMap_loop mapName placeholderMap allPlaceholderNames
       (Object_keys placeholderMap)"

text \<open>The last loop of \<^verbatim>\<open>assertDeclareIcuTemplateParametersAreValid\<close>, over
  \<^verbatim>\<open>Object.keys(options)\<close>.\<close>

fun assertOptionNames :: "string list \<Rightarrow> error + unit" where
  "assertOptionNames [] = Inr ()"
| "assertOptionNames (propName # keys) =
     and_then (assert (propName \<in> VALID_OPTIONS) (UnknownOptionName propName))
       (assertOptionNames keys)"

text \<open>
  A value that is truthy and whose \<^verbatim>\<open>typeof\<close> is \<^verbatim>\<open>object\<close> is an object, whose
  properties \<^verbatim>\<open>assertValidPlaceholderMap\<close> then reads; no other value reaches the call.
\<close>

fun properties_of :: "jsval \<Rightarrow> jsobject" where
  "properties_of (JObj ps) = ps"
| "properties_of v = []"

text \<open>
  \<^verbatim>\<open>assertDeclareIcuTemplateParametersAreValid\<close>, with the flag \<^verbatim>\<open>COMPILED\<close> and the
  \<^verbatim>\<open>lastIndex\<close> of \<^verbatim>\<open>ICU_PLACEHOLDER_GLOBAL_RE\<close> as arguments; the result is the
  outcome and the \<^verbatim>\<open>lastIndex\<close> the call leaves behind.
\<close>

definition assertDeclareIcuTemplateParametersAreValid ::
  "bool \<Rightarrow> nat \<Rightarrow> string \<Rightarrow> jsobject \<Rightarrow> (error + unit) \<times> nat" where
  "assertDeclareIcuTemplateParametersAreValid COMPILED lastIndex templateString options =
     (if COMPILED then (Inr (), lastIndex)
      else
        (case assertNoClosureStylePlaceholdersInIcuTemplate templateString of
           Inl e \<Rightarrow> (Inl e, lastIndex)
         | Inr u \<Rightarrow>
             (case gatherIcuPlaceholderNames templateString lastIndex of
                (icuPlaceholderNames, lastIndex') \<Rightarrow>
                  (let description = js_get options ''description'';
                       meaning = js_get options ''meaning'';
                       exampleMap = js_get options ''example'';
                       originalCodeMap = js_get options ''original_code''
                   in
                     and_then (assert (truthy description) NoDescription)
                    (and_then
                       (assert (typeof description = ''string'')
                          (InvalidDescription description))
                    (and_then
                       (assert (\<not> truthy meaning \<or> typeof meaning = ''string'')
                          (InvalidMeaning meaning))
                    (and_then
                       (if truthy exampleMap then
                          and_then
                            (assert (typeof exampleMap = ''object'')
                               (InvalidMap ''example'' exampleMap))
                            (assertValidPlaceholderMap ''example''
                               (properties_of exampleMap) icuPlaceholderNames)
                        else Inr ())
                    (and_then
                       (if truthy originalCodeMap then
                          and_then
                            (assert (typeof originalCodeMap = ''object'')
                               (InvalidMap ''original_code'' originalCodeMap))
                            (assertValidPlaceholderMap ''original_code''
                               (properties_of originalCodeMap) icuPlaceholderNames)
                        else Inr ())
                       (assertOptionNames (Object_keys options)))))),
                   lastIndex'))))"

definition declareIcuTemplate ::
  "bool \<Rightarrow> nat \<Rightarrow> string \<Rightarrow> jsobject \<Rightarrow> (error + string) \<times> nat" where
  "declareIcuTemplate COMPILED lastIndex templateString options =
     (case assertDeclareIcuTemplateParametersAreValid COMPILED lastIndex templateString options of
        (Inl e, lastIndex') \<Rightarrow> (Inl e, lastIndex')
      | (Inr u, lastIndex') \<Rightarrow> (Inr templateString, lastIndex'))"

subsection \<open>The calls of a run\<close>

text \<open>
  The module keeps one piece of state between calls: the \<^verbatim>\<open>lastIndex\<close> of its global
  regular expression, 0 when the module is loaded. \<open>lastIndex_after\<close> is its value after
  a sequence of calls of \<^verbatim>\<open>declareIcuTemplate\<close>, whatever their outcomes.
\<close>

fun lastIndex_after :: "bool \<Rightarrow> nat \<Rightarrow> (string \<times> jsobject) list \<Rightarrow> nat" where
  "lastIndex_after COMPILED lastIndex [] = lastIndex"
| "lastIndex_after COMPILED lastIndex ((templateString, options) # calls) =
     lastIndex_after COMPILED
       (snd (declareIcuTemplate COMPILED lastIndex templateString options)) calls"

subsection \<open>The words of the specification\<close>

text \<open>A legacy placeholder: \<^verbatim>\<open>{$\<close>, one or more characters other than a closing
  brace, and a closing brace.\<close>

definition legacy_placeholder :: "string \<Rightarrow> bool" where
  "legacy_placeholder p =
     (\<exists>w. w \<noteq> [] \<and> CHR ''}'' \<notin> set w \<and> p = ''{$'' @ w @ ''}'')"

definition occurs_in :: "string \<Rightarrow> string \<Rightarrow> bool" where
  "occurs_in p t = (\<exists>pre post. t = pre @ p @ post)"

text \<open>A name: \<^verbatim>\<open>[A-Za-z_][A-Za-z0-9_]*\<close>.\<close>

definition is_placeholder_name :: "string \<Rightarrow> bool" where
  "is_placeholder_name N =
     (case N of [] \<Rightarrow> False | c # cs \<Rightarrow> is_name_start c \<and> list_all is_word_char cs)"

text \<open>The names \<open>N\<close> such that \<^verbatim>\<open>{N}\<close> occurs in the template.\<close>

definition spec_placeholder_names :: "string \<Rightarrow> string set" where
  "spec_placeholder_names t =
     {N. is_placeholder_name N \<and> (\<exists>pre post. t = pre @ ''{'' @ N @ ''}'' @ post)}"

text \<open>
  The invariants of the data model, for the template and for each recognized field of the
  options record. A field that is absent reads as \<^verbatim>\<open>undefined\<close>.
\<close>

definition has_legacy_placeholder :: "string \<Rightarrow> bool" where
  "has_legacy_placeholder t = (\<exists>p. legacy_placeholder p \<and> occurs_in p t)"

fun is_text :: "jsval \<Rightarrow> bool" where
  "is_text (JStr s) = True"
| "is_text v = False"

text \<open>The description is present and is non-empty text.\<close>

definition description_valid :: "jsobject \<Rightarrow> bool" where
  "description_valid options =
     (case js_get options ''description'' of JStr d \<Rightarrow> d \<noteq> [] | _ \<Rightarrow> False)"

text \<open>The meaning is absent or is text.\<close>

definition meaning_valid :: "jsobject \<Rightarrow> bool" where
  "meaning_valid options =
     (case js_get options ''meaning'' of JUndefined \<Rightarrow> True | JStr m \<Rightarrow> True | _ \<Rightarrow> False)"

text \<open>Every key of the map is one of the names and every value is text.\<close>

definition placeholder_map_valid :: "string set \<Rightarrow> jsobject \<Rightarrow> bool" where
  "placeholder_map_valid names m = list_all (\<lambda>(k, v). k \<in> names \<and> is_text v) m"

text \<open>The field is absent or is such a map.\<close>

definition map_field_valid :: "string set \<Rightarrow> jsobject \<Rightarrow> string \<Rightarrow> bool" where
  "map_field_valid names options field =
     (case js_get options field of
        JUndefined \<Rightarrow> True
      | JObj m \<Rightarrow> placeholder_map_valid names m
      | _ \<Rightarrow> False)"

definition only_recognized_fields :: "jsobject \<Rightarrow> bool" where
  "only_recognized_fields options = list_all (\<lambda>k. k \<in> VALID_OPTIONS) (Object_keys options)"

text \<open>A key that the map check rejects: it is not one of the names, or its value is not
  text.\<close>

definition offending_key :: "string set \<Rightarrow> jsobject \<Rightarrow> string \<Rightarrow> bool" where
  "offending_key names m k = (k \<notin> names \<or> typeof (js_get m k) \<noteq> ''string'')"

definition unrecognized :: "string \<Rightarrow> bool" where
  "unrecognized k = (k \<notin> VALID_OPTIONS)"

text \<open>
  The block that \<^verbatim>\<open>assertDeclareIcuTemplateParametersAreValid\<close> runs for each of the two
  maps, \<^verbatim>\<open>if (map) { assert(typeof map == 'object', ...); assertValidPlaceholderMap(...) }\<close>,
  under a name of its own for the statements below.
\<close>

definition placeholder_option_check :: "string \<Rightarrow> jsval \<Rightarrow> string set \<Rightarrow> error + unit" where
  "placeholder_option_check mapName v names =
     (if truthy v then
        and_then (assert (typeof v = ''object'') (InvalidMap mapName v))
          (assertValidPlaceholderMap mapName (properties_of v) names)
      else Inr ())"

section \<open>Properties\<close>

subsection \<open>The legacy placeholder pattern\<close>

lemma not_close_brace_all: "list_all not_close_brace w \<longleftrightarrow> CHR ''}'' \<notin> set w"
  by (induction w) (auto simp: not_close_brace_def)

lemma takeWhile_run:
  "list_all P w \<Longrightarrow> \<not> P e \<Longrightarrow> takeWhile P (w @ e # post) = w"
  by (induction w) simp_all

lemma dropWhile_run:
  "list_all P w \<Longrightarrow> \<not> P e \<Longrightarrow> dropWhile P (w @ e # post) = e # post"
  by (induction w) simp_all

lemma run_split:
  "dropWhile P xs = e # r \<Longrightarrow>
   xs = takeWhile P xs @ e # r \<and> list_all P (takeWhile P xs) \<and> \<not> P e"
  by (induction xs) (auto split: if_splits)

lemma CLOSURE_at_Some:
  "CLOSURE_PLACEHOLDER_RE_at s = Some m \<longleftrightarrow>
   (\<exists>w post. w \<noteq> [] \<and> list_all not_close_brace w \<and>
      s = ''{$'' @ w @ ''}'' @ post \<and> m = ''{$'' @ w @ ''}'')"
proof
  assume a: "CLOSURE_PLACEHOLDER_RE_at s = Some m"
  then obtain rest where s: "s = CHR ''{'' # CHR ''$'' # rest"
    by (cases s rule: CLOSURE_PLACEHOLDER_RE_at.cases) (auto split: if_splits)
  let ?w = "takeWhile not_close_brace rest"
  from a s have w: "?w \<noteq> []"
    by (auto simp: Let_def split: if_splits)
  from a s w obtain e r where r: "dropWhile not_close_brace rest = e # r"
    and m: "m = CHR ''{'' # CHR ''$'' # ?w @ [e]"
    by (auto simp: Let_def split: if_splits list.splits)
  from run_split [OF r] have rest: "rest = ?w @ e # r" and all: "list_all not_close_brace ?w"
    and "\<not> not_close_brace e"
    by blast+
  then have e: "e = CHR ''}''" by (simp add: not_close_brace_def)
  from rest e s have "s = ''{$'' @ ?w @ ''}'' @ r" by simp
  with w all m e show "\<exists>w post. w \<noteq> [] \<and> list_all not_close_brace w \<and>
      s = ''{$'' @ w @ ''}'' @ post \<and> m = ''{$'' @ w @ ''}''"
    by auto
next
  assume "\<exists>w post. w \<noteq> [] \<and> list_all not_close_brace w \<and>
      s = ''{$'' @ w @ ''}'' @ post \<and> m = ''{$'' @ w @ ''}''"
  then obtain w post where w: "w \<noteq> []" and all: "list_all not_close_brace w"
    and s: "s = ''{$'' @ w @ ''}'' @ post" and m: "m = ''{$'' @ w @ ''}''"
    by blast
  have ne: "\<not> not_close_brace (CHR ''}'')" by (simp add: not_close_brace_def)
  from s have s': "s = CHR ''{'' # CHR ''$'' # (w @ CHR ''}'' # post)" by simp
  show "CLOSURE_PLACEHOLDER_RE_at s = Some m"
    unfolding s' using w m
    by (simp add: takeWhile_run [OF all ne] dropWhile_run [OF all ne])
qed

lemma CLOSURE_exec_Some:
  "CLOSURE_PLACEHOLDER_RE_exec t = Some m \<Longrightarrow> legacy_placeholder m \<and> occurs_in m t"
proof (induction t)
  case Nil
  then show ?case by simp
next
  case (Cons c cs)
  show ?case
  proof (cases "CLOSURE_PLACEHOLDER_RE_at (c # cs)")
    case None
    with Cons.prems have "CLOSURE_PLACEHOLDER_RE_exec cs = Some m" by simp
    from Cons.IH [OF this] obtain pre post where "legacy_placeholder m" "cs = pre @ m @ post"
      by (auto simp: occurs_in_def)
    then have "legacy_placeholder m" "c # cs = (c # pre) @ m @ post" by simp_all
    then show ?thesis unfolding occurs_in_def by blast
  next
    case (Some m')
    with Cons.prems have "m' = m" by simp
    with Some obtain w post where "w \<noteq> []" "list_all not_close_brace w"
      "c # cs = ''{$'' @ w @ ''}'' @ post" "m = ''{$'' @ w @ ''}''"
      unfolding CLOSURE_at_Some by blast
    then have "legacy_placeholder m" "c # cs = [] @ m @ post"
      by (auto simp: legacy_placeholder_def not_close_brace_all)
    then show ?thesis unfolding occurs_in_def by blast
  qed
qed

lemma CLOSURE_exec_None:
  "CLOSURE_PLACEHOLDER_RE_exec (pre @ ''{$'' @ w @ ''}'' @ post) = None \<Longrightarrow>
   w \<noteq> [] \<Longrightarrow> list_all not_close_brace w \<Longrightarrow> False"
proof (induction pre)
  case Nil
  have "CLOSURE_PLACEHOLDER_RE_at (''{$'' @ w @ ''}'' @ post) = Some (''{$'' @ w @ ''}'')"
    unfolding CLOSURE_at_Some using Nil.prems by blast
  with Nil.prems(1) show ?case by simp
next
  case (Cons c pre)
  from Cons.prems(1) have "CLOSURE_PLACEHOLDER_RE_exec (pre @ ''{$'' @ w @ ''}'' @ post) = None"
    by (simp split: option.splits)
  from Cons.IH [OF this Cons.prems(2,3)] show ?case .
qed

lemma CLOSURE_exec_None_iff:
  "CLOSURE_PLACEHOLDER_RE_exec t = None \<longleftrightarrow> \<not> (\<exists>p. legacy_placeholder p \<and> occurs_in p t)"
proof
  assume n: "CLOSURE_PLACEHOLDER_RE_exec t = None"
  show "\<not> (\<exists>p. legacy_placeholder p \<and> occurs_in p t)"
  proof
    assume "\<exists>p. legacy_placeholder p \<and> occurs_in p t"
    then obtain w pre post where "w \<noteq> []" "list_all not_close_brace w"
      "t = pre @ ''{$'' @ w @ ''}'' @ post"
      unfolding legacy_placeholder_def occurs_in_def not_close_brace_all [symmetric] by auto
    with n CLOSURE_exec_None show False by blast
  qed
next
  assume "\<not> (\<exists>p. legacy_placeholder p \<and> occurs_in p t)"
  with CLOSURE_exec_Some show "CLOSURE_PLACEHOLDER_RE_exec t = None"
    by (cases "CLOSURE_PLACEHOLDER_RE_exec t") auto
qed



lemma CLOSURE_at_not_open: "c \<noteq> CHR ''{'' \<Longrightarrow> CLOSURE_PLACEHOLDER_RE_at (c # cs) = None"
  by (cases cs) simp_all

lemma CLOSURE_exec_skip:
  "CHR ''{'' \<notin> set pre \<Longrightarrow>
   CLOSURE_PLACEHOLDER_RE_exec (pre @ s) = CLOSURE_PLACEHOLDER_RE_exec s"
  by (induction pre) (auto simp: CLOSURE_at_not_open)

lemma assertNoClosure_Some:
  "CLOSURE_PLACEHOLDER_RE_exec t = Some p \<Longrightarrow>
   assertNoClosureStylePlaceholdersInIcuTemplate t = Inl (ClosureStylePlaceholder p t)"
  by (simp add: assertNoClosureStylePlaceholdersInIcuTemplate_def assert_def)

lemma assertNoClosure_None:
  "CLOSURE_PLACEHOLDER_RE_exec t = None \<Longrightarrow>
   assertNoClosureStylePlaceholdersInIcuTemplate t = Inr ()"
  by (simp add: assertNoClosureStylePlaceholdersInIcuTemplate_def assert_def)

lemma declare_legacy:
  "CLOSURE_PLACEHOLDER_RE_exec t = Some p \<Longrightarrow>
   declareIcuTemplate False li t options = (Inl (ClosureStylePlaceholder p t), li)"
  by (simp add: declareIcuTemplate_def assertDeclareIcuTemplateParametersAreValid_def
      assertNoClosure_Some)

subsection \<open>The ICU placeholder pattern and the gathering loop\<close>

lemma name_start_is_word: "is_name_start c \<Longrightarrow> is_word_char c"
  by (auto simp: is_name_start_def is_word_char_def)

lemma close_brace_not_word: "\<not> is_word_char (CHR ''}'')"
  by (simp add: is_word_char_def)

lemma word_not_open_brace: "is_word_char c \<Longrightarrow> c \<noteq> CHR ''{''"
  by (auto simp: is_word_char_def)

lemma ICU_at_Some:
  "ICU_PLACEHOLDER_GLOBAL_RE_at s = Some (n, len) \<longleftrightarrow>
   is_placeholder_name n \<and> len = length n + 2 \<and> (\<exists>post. s = ''{'' @ n @ ''}'' @ post)"
proof
  assume a: "ICU_PLACEHOLDER_GLOBAL_RE_at s = Some (n, len)"
  then obtain d rest where s: "s = CHR ''{'' # d # rest" and d: "is_name_start d"
    by (cases s rule: ICU_PLACEHOLDER_GLOBAL_RE_at.cases) (auto split: if_splits)
  let ?w = "takeWhile is_word_char rest"
  from a s d obtain e r where r: "dropWhile is_word_char rest = e # r"
    and e: "e = CHR ''}''" and n: "n = d # ?w" and len: "len = length ?w + 3"
    by (auto simp: Let_def split: if_splits list.splits)
  from run_split [OF r] have rest: "rest = ?w @ e # r" and all: "list_all is_word_char ?w"
    by blast+
  from rest e s n have "s = ''{'' @ n @ ''}'' @ r" by simp
  moreover from d all n have "is_placeholder_name n" by (simp add: is_placeholder_name_def)
  moreover from n len have "len = length n + 2" by simp
  ultimately show "is_placeholder_name n \<and> len = length n + 2 \<and>
      (\<exists>post. s = ''{'' @ n @ ''}'' @ post)"
    by blast
next
  assume "is_placeholder_name n \<and> len = length n + 2 \<and> (\<exists>post. s = ''{'' @ n @ ''}'' @ post)"
  then obtain post d w where n: "n = d # w" and d: "is_name_start d"
    and all: "list_all is_word_char w" and len: "len = length n + 2"
    and s: "s = ''{'' @ n @ ''}'' @ post"
    by (auto simp: is_placeholder_name_def split: list.splits)
  from s n have s': "s = CHR ''{'' # d # (w @ CHR ''}'' # post)" by simp
  show "ICU_PLACEHOLDER_GLOBAL_RE_at s = Some (n, len)"
    unfolding s' using d n len
    by (simp add: takeWhile_run [OF all close_brace_not_word]
        dropWhile_run [OF all close_brace_not_word])
qed

lemma ICU_at_not_open: "c \<noteq> CHR ''{'' \<Longrightarrow> ICU_PLACEHOLDER_GLOBAL_RE_at (c # cs) = None"
  by (cases cs) simp_all

lemma spec_names_Nil: "spec_placeholder_names [] = {}"
  by (simp add: spec_placeholder_names_def)

lemma spec_names_Cons:
  "spec_placeholder_names (c # cs) =
     (case ICU_PLACEHOLDER_GLOBAL_RE_at (c # cs) of None \<Rightarrow> {} | Some (n, len) \<Rightarrow> {n})
     \<union> spec_placeholder_names cs"
proof (intro set_eqI iffI)
  fix N
  assume "N \<in> spec_placeholder_names (c # cs)"
  then obtain pre post where N: "is_placeholder_name N"
    and t: "c # cs = pre @ ''{'' @ N @ ''}'' @ post"
    by (auto simp: spec_placeholder_names_def)
  show "N \<in> (case ICU_PLACEHOLDER_GLOBAL_RE_at (c # cs) of None \<Rightarrow> {} | Some (n, len) \<Rightarrow> {n})
     \<union> spec_placeholder_names cs"
  proof (cases pre)
    case Nil
    with N t have "ICU_PLACEHOLDER_GLOBAL_RE_at (c # cs) = Some (N, length N + 2)"
      unfolding ICU_at_Some by simp
    then show ?thesis by simp
  next
    case (Cons a pre')
    with t have "cs = pre' @ ''{'' @ N @ ''}'' @ post" by simp
    with N have "N \<in> spec_placeholder_names cs"
      unfolding spec_placeholder_names_def by blast
    then show ?thesis by simp
  qed
next
  fix N
  assume a: "N \<in> (case ICU_PLACEHOLDER_GLOBAL_RE_at (c # cs) of None \<Rightarrow> {} | Some (n, len) \<Rightarrow> {n})
     \<union> spec_placeholder_names cs"
  show "N \<in> spec_placeholder_names (c # cs)"
  proof (cases "N \<in> spec_placeholder_names cs")
    case True
    then obtain pre post where N: "is_placeholder_name N"
      and "cs = pre @ ''{'' @ N @ ''}'' @ post"
      by (auto simp: spec_placeholder_names_def)
    then have "c # cs = (c # pre) @ ''{'' @ N @ ''}'' @ post" by simp
    with N show ?thesis unfolding spec_placeholder_names_def by blast
  next
    case False
    with a obtain len where "ICU_PLACEHOLDER_GLOBAL_RE_at (c # cs) = Some (N, len)"
      by (auto split: option.splits)
    then obtain post where N: "is_placeholder_name N"
      and "c # cs = ''{'' @ N @ ''}'' @ post"
      unfolding ICU_at_Some by blast
    then have "c # cs = [] @ ''{'' @ N @ ''}'' @ post" by simp
    with N show ?thesis unfolding spec_placeholder_names_def by blast
  qed
qed

lemma spec_names_skip_other:
  "c \<noteq> CHR ''{'' \<Longrightarrow> spec_placeholder_names (c # cs) = spec_placeholder_names cs"
  by (simp add: spec_names_Cons ICU_at_not_open)

lemma spec_names_skip_words:
  "list_all is_word_char w \<Longrightarrow> spec_placeholder_names (w @ s) = spec_placeholder_names s"
  by (induction w) (simp_all add: spec_names_skip_other word_not_open_brace)

lemma spec_names_match:
  assumes "ICU_PLACEHOLDER_GLOBAL_RE_at s = Some (n, len)"
  shows "spec_placeholder_names s = insert n (spec_placeholder_names (drop len s))"
proof -
  from assms obtain post where n: "is_placeholder_name n" and len: "len = length n + 2"
    and s: "s = ''{'' @ n @ ''}'' @ post"
    unfolding ICU_at_Some by blast
  from n have all: "list_all is_word_char n"
    by (auto simp: is_placeholder_name_def name_start_is_word split: list.splits)
  from s have s': "s = CHR ''{'' # (n @ CHR ''}'' # post)" by simp
  have "drop len s = post" unfolding s len by simp
  moreover have "spec_placeholder_names (n @ CHR ''}'' # post) = spec_placeholder_names post"
    by (simp add: spec_names_skip_words [OF all] spec_names_skip_other)
  ultimately show ?thesis
    using assms unfolding s' by (simp add: spec_names_Cons)
qed

lemma ICU_search_None:
  "ICU_PLACEHOLDER_GLOBAL_RE_search s i = None \<Longrightarrow> spec_placeholder_names s = {}"
  by (induction s arbitrary: i)
    (auto simp: spec_names_Nil spec_names_Cons split: option.splits)

lemma ICU_search_Some:
  "ICU_PLACEHOLDER_GLOBAL_RE_search s i = Some (n, e) \<Longrightarrow>
   spec_placeholder_names s = insert n (spec_placeholder_names (drop (e - i) s))"
proof (induction s arbitrary: i)
  case Nil
  then show ?case by simp
next
  case (Cons c cs)
  show ?case
  proof (cases "ICU_PLACEHOLDER_GLOBAL_RE_at (c # cs)")
    case None
    with Cons.prems have r: "ICU_PLACEHOLDER_GLOBAL_RE_search cs (Suc i) = Some (n, e)"
      by simp
    from ICU_search_bounds [OF r] have "e - i = Suc (e - Suc i)" by arith
    with Cons.IH [OF r] None show ?thesis
      by (simp add: spec_names_Cons)
  next
    case (Some p)
    obtain m len where p: "p = (m, len)" by (cases p)
    from Some p Cons.prems have "m = n" "e = i + len" by simp_all
    with Some p spec_names_match [of "c # cs" n len] show ?thesis by simp
  qed
qed

lemma gather_loop_result:
  "lastIndex \<le> length t \<Longrightarrow>
   gatherIcuPlaceholderNames_loop t lastIndex acc =
     (acc \<union> spec_placeholder_names (drop lastIndex t), 0)"
proof (induction t lastIndex acc rule: gatherIcuPlaceholderNames_loop.induct)
  case (1 t li acc)
  show ?case
  proof (cases "ICU_PLACEHOLDER_GLOBAL_RE_search (drop li t) li")
    case None
    with "1.prems" have "ICU_PLACEHOLDER_GLOBAL_RE_exec t li = (None, 0)"
      by (simp add: ICU_PLACEHOLDER_GLOBAL_RE_exec_def)
    with ICU_search_None [OF None] show ?thesis
      by (simp add: gatherIcuPlaceholderNames_loop.simps [of t li])
  next
    case (Some p)
    obtain n e where p: "p = (n, e)" by (cases p)
    with Some "1.prems" have ex: "ICU_PLACEHOLDER_GLOBAL_RE_exec t li = (Some n, e)"
      by (simp add: ICU_PLACEHOLDER_GLOBAL_RE_exec_def)
    from ICU_exec_bounds [OF ex] have b: "li < e" "e \<le> length t" by simp_all
    from Some p have "spec_placeholder_names (drop li t) =
        insert n (spec_placeholder_names (drop (e - li) (drop li t)))"
      by (simp add: ICU_search_Some)
    with b have names: "spec_placeholder_names (drop li t) =
        insert n (spec_placeholder_names (drop e t))"
      by simp
    from "1.IH" [OF ex [symmetric] refl b(2)]
    have "gatherIcuPlaceholderNames_loop t e (insert n acc) =
        (insert n acc \<union> spec_placeholder_names (drop e t), 0)" .
    with ex names show ?thesis
      by (simp add: gatherIcuPlaceholderNames_loop.simps [of t li])
  qed
qed

lemma gather_loop_lastIndex:
  "snd (gatherIcuPlaceholderNames_loop t lastIndex acc) = 0"
proof (induction t lastIndex acc rule: gatherIcuPlaceholderNames_loop.induct)
  case (1 t li acc)
  obtain m e where ex: "ICU_PLACEHOLDER_GLOBAL_RE_exec t li = (m, e)"
    by (cases "ICU_PLACEHOLDER_GLOBAL_RE_exec t li")
  show ?case
  proof (cases m)
    case None
    with ex have "e = 0"
      by (auto simp: ICU_PLACEHOLDER_GLOBAL_RE_exec_def split: if_splits option.splits)
    with ex None show ?thesis
      by (simp add: gatherIcuPlaceholderNames_loop.simps [of t li])
  next
    case (Some n)
    from "1.IH" [OF ex [symmetric] Some] ex Some show ?thesis
      by (simp add: gatherIcuPlaceholderNames_loop.simps [of t li])
  qed
qed

subsection \<open>The state between calls\<close>

lemma declare_lastIndex_0: "snd (declareIcuTemplate c 0 t options) = 0"
proof (cases c)
  case True
  then show ?thesis
    by (simp add: declareIcuTemplate_def assertDeclareIcuTemplateParametersAreValid_def)
next
  case False
  show ?thesis
  proof (cases "assertNoClosureStylePlaceholdersInIcuTemplate t")
    case (Inl e)
    with False show ?thesis
      by (simp add: declareIcuTemplate_def assertDeclareIcuTemplateParametersAreValid_def)
  next
    case (Inr u)
    obtain names li where g: "gatherIcuPlaceholderNames t 0 = (names, li)"
      by (cases "gatherIcuPlaceholderNames t 0")
    with gather_loop_lastIndex [of t 0 "{}"] have "li = 0"
      by (simp add: gatherIcuPlaceholderNames_def)
    with False Inr g show ?thesis
      by (simp add: declareIcuTemplate_def assertDeclareIcuTemplateParametersAreValid_def
          Let_def split: sum.splits)
  qed
qed

lemma lastIndex_after_0: "lastIndex_after c 0 calls = 0"
  by (induction calls) (auto simp: declare_lastIndex_0)

lemma name_no_close_brace:
  assumes "is_placeholder_name N"
  shows "N \<noteq> [] \<and> CHR ''}'' \<notin> set N"
proof -
  from assms obtain c cs where N: "N = c # cs" and c: "is_name_start c"
    and cs: "list_all is_word_char cs"
    by (auto simp: is_placeholder_name_def split: list.splits)
  from c name_start_is_word close_brace_not_word have "c \<noteq> CHR ''}''" by blast
  moreover from cs close_brace_not_word have "CHR ''}'' \<notin> set cs"
    unfolding list_all_iff by blast
  ultimately show ?thesis using N by simp
qed

subsection \<open>The checks of the options record\<close>

lemma declare_uncompiled:
  "fst (declareIcuTemplate False li t options) =
     (case CLOSURE_PLACEHOLDER_RE_exec t of
        Some p \<Rightarrow> Inl (ClosureStylePlaceholder p t)
      | None \<Rightarrow>
         (let names = fst (gatherIcuPlaceholderNames t li);
              d = js_get options ''description'';
              m = js_get options ''meaning''
          in if \<not> truthy d then Inl NoDescription
             else if typeof d \<noteq> ''string'' then Inl (InvalidDescription d)
             else if truthy m \<and> typeof m \<noteq> ''string'' then Inl (InvalidMeaning m)
             else (case placeholder_option_check ''example'' (js_get options ''example'') names of
                     Inl e \<Rightarrow> Inl e
                   | Inr u \<Rightarrow>
                      (case placeholder_option_check ''original_code''
                              (js_get options ''original_code'') names of
                         Inl e \<Rightarrow> Inl e
                       | Inr u \<Rightarrow>
                          (case assertOptionNames (Object_keys options) of
                             Inl e \<Rightarrow> Inl e
                           | Inr u \<Rightarrow> Inr t)))))"
proof (cases "CLOSURE_PLACEHOLDER_RE_exec t")
  case (Some p)
  then show ?thesis by (simp add: declare_legacy)
next
  case None
  obtain names li' where g: "gatherIcuPlaceholderNames t li = (names, li')"
    by (cases "gatherIcuPlaceholderNames t li")
  show ?thesis
    unfolding declareIcuTemplate_def assertDeclareIcuTemplateParametersAreValid_def
      placeholder_option_check_def [symmetric]
    by (simp add: None assertNoClosure_None g Let_def assert_def split: sum.splits)
qed

lemma has_legacy_iff:
  "has_legacy_placeholder t \<longleftrightarrow> CLOSURE_PLACEHOLDER_RE_exec t \<noteq> None"
  by (simp add: has_legacy_placeholder_def CLOSURE_exec_None_iff)

lemma assertOptionNames_find:
  "assertOptionNames keys =
     (case find unrecognized keys of None \<Rightarrow> Inr () | Some k \<Rightarrow> Inl (UnknownOptionName k))"
  by (induction keys) (simp_all add: assert_def unrecognized_def)

lemma map_loop_find:
  "assertValidPlaceholderMap_loop mapName m names keys =
     (case find (offending_key names m) keys of
        None \<Rightarrow> Inr ()
      | Some k \<Rightarrow>
          if k \<in> names then Inl (InvalidPlaceholderValue mapName k (js_get m k))
          else Inl (UnknownPlaceholder mapName k))"
  by (induction keys) (simp_all add: assert_def offending_key_def Let_def)

lemma is_text_typeof: "is_text v \<longleftrightarrow> typeof v = ''string''"
  by (cases v) simp_all

lemma object_value: "truthy v \<Longrightarrow> typeof v = ''object'' \<Longrightarrow> \<exists>m. v = JObj m"
  by (cases v) simp_all

lemma js_get_key_in:
  assumes "k \<in> set (Object_keys m)"
  shows "(k, js_get m k) \<in> set m"
proof -
  from assms have "k \<in> fst ` set m" by (simp add: Object_keys_def)
  then obtain v where "map_of m k = Some v"
    by (cases "map_of m k") (auto simp: map_of_eq_None_iff)
  then show ?thesis by (auto simp: js_get_def dest: map_of_SomeD)
qed

lemma valid_map_no_offender:
  assumes "placeholder_map_valid names m"
  shows "find (offending_key names m) (Object_keys m) = None"
proof -
  have "\<not> offending_key names m k" if "k \<in> set (Object_keys m)" for k
  proof -
    from js_get_key_in [OF that] assms
    have "k \<in> names \<and> is_text (js_get m k)"
      unfolding placeholder_map_valid_def list_all_iff by blast
    then show ?thesis by (simp add: offending_key_def is_text_typeof)
  qed
  then show ?thesis by (simp add: find_None_iff)
qed

lemma option_check_object:
  "placeholder_option_check mapName (JObj m) names = assertValidPlaceholderMap mapName m names"
  by (simp add: placeholder_option_check_def assert_def)

lemma option_check_valid:
  assumes "map_field_valid names options field"
  shows "placeholder_option_check mapName (js_get options field) names = Inr ()"
proof (cases "js_get options field")
  case JUndefined
  then show ?thesis by (simp add: placeholder_option_check_def)
next
  case (JObj m)
  with assms have "placeholder_map_valid names m" by (simp add: map_field_valid_def)
  from valid_map_no_offender [OF this] JObj show ?thesis
    by (simp add: option_check_object assertValidPlaceholderMap_def map_loop_find)
qed (use assms in \<open>simp_all add: map_field_valid_def\<close>)

lemma description_valid_checks:
  "description_valid options \<Longrightarrow>
   truthy (js_get options ''description'') \<and> typeof (js_get options ''description'') = ''string''"
  by (cases "js_get options ''description''") (simp_all add: description_valid_def)

lemma meaning_valid_checks:
  "meaning_valid options \<Longrightarrow>
   \<not> (truthy (js_get options ''meaning'') \<and> typeof (js_get options ''meaning'') \<noteq> ''string'')"
  by (cases "js_get options ''meaning''") (simp_all add: meaning_valid_def)

lemma declare_fails_or_returns:
  "(\<exists>e. fst (declareIcuTemplate False li t options) = Inl e) \<or>
   fst (declareIcuTemplate False li t options) = Inr t"
  unfolding declare_uncompiled
  by (simp add: Let_def split: option.splits sum.splits)

lemma declare_returns_D:
  assumes "fst (declareIcuTemplate False li t options) = Inr r"
  shows "CLOSURE_PLACEHOLDER_RE_exec t = None"
    and "truthy (js_get options ''description'')"
    and "typeof (js_get options ''description'') = ''string''"
    and "\<not> (truthy (js_get options ''meaning'') \<and> typeof (js_get options ''meaning'') \<noteq> ''string'')"
    and "placeholder_option_check ''example'' (js_get options ''example'')
           (fst (gatherIcuPlaceholderNames t li)) = Inr ()"
    and "placeholder_option_check ''original_code'' (js_get options ''original_code'')
           (fst (gatherIcuPlaceholderNames t li)) = Inr ()"
    and "assertOptionNames (Object_keys options) = Inr ()"
  using assms unfolding declare_uncompiled
  by (simp_all add: Let_def split: option.splits sum.splits if_splits)

lemma map_check_find:
  "assertValidPlaceholderMap mapName m names =
     (case find (offending_key names m) (Object_keys m) of
        None \<Rightarrow> Inr ()
      | Some k \<Rightarrow>
          if k \<in> names then Inl (InvalidPlaceholderValue mapName k (js_get m k))
          else Inl (UnknownPlaceholder mapName k))"
  by (simp add: assertValidPlaceholderMap_def map_loop_find)

lemma map_check_offender:
  assumes "k \<in> set (Object_keys m)" and "offending_key names m k"
  shows "\<exists>e. assertValidPlaceholderMap mapName m names = Inl e"
proof -
  from assms have "find (offending_key names m) (Object_keys m) \<noteq> None"
    by (auto simp: find_None_iff)
  then show ?thesis
    unfolding map_check_find by (auto split: option.splits)
qed

lemma declare_fails_in_example:
  assumes "js_get options ''example'' = JObj m"
    and "assertValidPlaceholderMap ''example'' m (fst (gatherIcuPlaceholderNames t li)) = Inl e"
  shows "\<exists>e'. fst (declareIcuTemplate False li t options) = Inl e'"
  using assms unfolding declare_uncompiled
  by (simp add: Let_def option_check_object split: option.splits)

lemma declare_fails_in_original_code:
  assumes "js_get options ''original_code'' = JObj m"
    and "assertValidPlaceholderMap ''original_code'' m (fst (gatherIcuPlaceholderNames t li))
           = Inl e"
  shows "\<exists>e'. fst (declareIcuTemplate False li t options) = Inl e'"
  using assms unfolding declare_uncompiled
  by (simp add: Let_def option_check_object split: option.splits sum.splits)

lemma declare_reports_example:
  assumes "\<not> has_legacy_placeholder t" and "description_valid options"
    and "meaning_valid options"
    and "js_get options ''example'' = JObj m"
    and "assertValidPlaceholderMap ''example'' m (fst (gatherIcuPlaceholderNames t li)) = Inl e"
  shows "fst (declareIcuTemplate False li t options) = Inl e"
proof -
  from assms(1) have "CLOSURE_PLACEHOLDER_RE_exec t = None" by (simp add: has_legacy_iff)
  with description_valid_checks [OF assms(2)] meaning_valid_checks [OF assms(3)] assms(4,5)
  show ?thesis
    unfolding declare_uncompiled by (auto simp: Let_def option_check_object)
qed

lemma declare_reports_original_code:
  assumes "\<not> has_legacy_placeholder t" and "description_valid options"
    and "meaning_valid options"
    and "map_field_valid (fst (gatherIcuPlaceholderNames t li)) options ''example''"
    and "js_get options ''original_code'' = JObj m"
    and "assertValidPlaceholderMap ''original_code'' m (fst (gatherIcuPlaceholderNames t li))
           = Inl e"
  shows "fst (declareIcuTemplate False li t options) = Inl e"
proof -
  from assms(1) have "CLOSURE_PLACEHOLDER_RE_exec t = None" by (simp add: has_legacy_iff)
  with description_valid_checks [OF assms(2)] meaning_valid_checks [OF assms(3)]
    option_check_valid [OF assms(4), of "''example''"] assms(5,6)
  show ?thesis
    unfolding declare_uncompiled by (auto simp: Let_def option_check_object)
qed

section \<open>The claims\<close>

text \<open>
  C1 (as amended): for every template string and options record that satisfy the
  invariants of the data model (no legacy placeholder in the template; a description that
  is present, textual and not empty; a meaning that is text if present; \<^verbatim>\<open>example\<close> and
  \<^verbatim>\<open>original_code\<close> maps, if present, whose keys are all derived placeholder names and
  whose values are all text; no unrecognized field), \<^verbatim>\<open>declareIcuTemplate\<close>, not
  compiled, does not fail and returns the template string unchanged. The witness is the
  call on \<^verbatim>\<open>"Hi, {NAME}!"\<close> with the description \<^verbatim>\<open>"greets user"\<close> and the example
  \<^verbatim>\<open>{NAME: "Jane"}\<close>.
\<close>

theorem valid_call_returns_template:
  assumes "\<not> has_legacy_placeholder t"
    and "description_valid options"
    and "meaning_valid options"
    and "map_field_valid (fst (gatherIcuPlaceholderNames t 0)) options ''example''"
    and "map_field_valid (fst (gatherIcuPlaceholderNames t 0)) options ''original_code''"
    and "only_recognized_fields options"
  shows "declareIcuTemplate False 0 t options = (Inr t, 0)"
proof -
  from assms(1) have "CLOSURE_PLACEHOLDER_RE_exec t = None"
    by (simp add: has_legacy_iff)
  moreover from assms(6) have "find unrecognized (Object_keys options) = None"
    by (simp add: only_recognized_fields_def find_None_iff list_all_iff unrecognized_def)
  ultimately have "fst (declareIcuTemplate False 0 t options) = Inr t"
    unfolding declare_uncompiled
    using description_valid_checks [OF assms(2)] meaning_valid_checks [OF assms(3)]
      option_check_valid [OF assms(4)] option_check_valid [OF assms(5)]
    by (simp add: Let_def assertOptionNames_find)
  with declare_lastIndex_0 [of False t options] show ?thesis
    by (cases "declareIcuTemplate False 0 t options") simp
qed

theorem valid_call_returns_template_witness:
  "declareIcuTemplate False 0 ''Hi, {NAME}!''
     [(''description'', JStr ''greets user''), (''example'', JObj [(''NAME'', JStr ''Jane'')])]
   = (Inr ''Hi, {NAME}!'', 0)"
proof -
  let ?t = "''Hi, {NAME}!''"
  let ?options = "[(''description'', JStr ''greets user''),
                   (''example'', JObj [(''NAME'', JStr ''Jane'')])]"
  have "CLOSURE_PLACEHOLDER_RE_exec ?t = None" by code_simp
  then have h1: "\<not> has_legacy_placeholder ?t" by (simp add: has_legacy_iff)
  have h2: "description_valid ?options" by code_simp
  have h3: "meaning_valid ?options" by code_simp
  have h4: "map_field_valid (fst (gatherIcuPlaceholderNames ?t 0)) ?options ''example''"
    by code_simp
  have h5: "map_field_valid (fst (gatherIcuPlaceholderNames ?t 0)) ?options ''original_code''"
    by code_simp
  have h6: "only_recognized_fields ?options" by code_simp
  from valid_call_returns_template [OF h1 h2 h3 h4 h5 h6] show ?thesis .
qed

text \<open>
  Counterexample to the first form of that statement, which asks of the description only
  that it be present and textual: the empty string is both, every other invariant holds,
  and the call fails with \<^verbatim>\<open>no description supplied\<close>, because the source tests the
  description for truthiness first.
\<close>

theorem empty_description_counterexample:
  "\<not> has_legacy_placeholder ''Hi''
   \<and> is_text (js_get [(''description'', JStr [])] ''description'')
   \<and> meaning_valid [(''description'', JStr [])]
   \<and> map_field_valid (fst (gatherIcuPlaceholderNames ''Hi'' 0))
        [(''description'', JStr [])] ''example''
   \<and> map_field_valid (fst (gatherIcuPlaceholderNames ''Hi'' 0))
        [(''description'', JStr [])] ''original_code''
   \<and> only_recognized_fields [(''description'', JStr [])]
   \<and> declareIcuTemplate False 0 ''Hi'' [(''description'', JStr [])] = (Inl NoDescription, 0)"
proof -
  have "CLOSURE_PLACEHOLDER_RE_exec ''Hi'' = None" by code_simp
  then have "\<not> has_legacy_placeholder ''Hi''" by (simp add: has_legacy_iff)
  moreover have "is_text (js_get [(''description'', JStr [])] ''description'')
   \<and> meaning_valid [(''description'', JStr [])]
   \<and> map_field_valid (fst (gatherIcuPlaceholderNames ''Hi'' 0))
        [(''description'', JStr [])] ''example''
   \<and> map_field_valid (fst (gatherIcuPlaceholderNames ''Hi'' 0))
        [(''description'', JStr [])] ''original_code''
   \<and> only_recognized_fields [(''description'', JStr [])]
   \<and> declareIcuTemplate False 0 ''Hi'' [(''description'', JStr [])] = (Inl NoDescription, 0)"
    by code_simp
  ultimately show ?thesis by blast
qed

text \<open>
  C2: a template that contains a legacy placeholder \<^verbatim>\<open>{$X}\<close> is rejected when the code
  is not compiled, whatever the options record holds (it may lack a description): the
  call fails with the closure-style-placeholder failure, which carries a legacy
  placeholder that occurs in the template (the leftmost one: it is \<^verbatim>\<open>{$X}\<close> itself when
  no opening brace comes before it) and the whole template. \<open>X\<close> is any non-empty text
  without a closing brace; every name is one (\<open>name_no_close_brace\<close>). The check comes
  before the gathering loop, so \<^verbatim>\<open>lastIndex\<close> is left as it was.
\<close>

theorem legacy_placeholder_rejected:
  assumes "X \<noteq> []" and "CHR ''}'' \<notin> set X"
  shows "\<exists>p. declareIcuTemplate False lastIndex (pre @ ''{$'' @ X @ ''}'' @ post) options =
             (Inl (ClosureStylePlaceholder p (pre @ ''{$'' @ X @ ''}'' @ post)), lastIndex)
           \<and> legacy_placeholder p
           \<and> occurs_in p (pre @ ''{$'' @ X @ ''}'' @ post)
           \<and> (CHR ''{'' \<notin> set pre \<longrightarrow> p = ''{$'' @ X @ ''}'')"
proof -
  let ?t = "pre @ ''{$'' @ X @ ''}'' @ post"
  from assms have all: "list_all not_close_brace X" by (simp add: not_close_brace_all)
  have "CLOSURE_PLACEHOLDER_RE_exec ?t \<noteq> None"
    using CLOSURE_exec_None [of pre X post] assms(1) all by blast
  then obtain p where p: "CLOSURE_PLACEHOLDER_RE_exec ?t = Some p" by blast
  have first: "p = ''{$'' @ X @ ''}''" if "CHR ''{'' \<notin> set pre"
  proof -
    have "CLOSURE_PLACEHOLDER_RE_at (''{$'' @ X @ ''}'' @ post) = Some (''{$'' @ X @ ''}'')"
      unfolding CLOSURE_at_Some using assms(1) all by blast
    then have "CLOSURE_PLACEHOLDER_RE_exec (''{$'' @ X @ ''}'' @ post) = Some (''{$'' @ X @ ''}'')"
      by simp
    with CLOSURE_exec_skip [OF that, of "''{$'' @ X @ ''}'' @ post"] p show ?thesis by simp
  qed
  from declare_legacy [OF p] CLOSURE_exec_Some [OF p] first show ?thesis by blast
qed

theorem legacy_placeholder_rejected_witness:
  "''NAME'' \<noteq> [] \<and> CHR ''}'' \<notin> set ''NAME'' \<and> CHR ''{'' \<notin> set ''Hi, ''
   \<and> declareIcuTemplate False 0 ''Hi, {$NAME}!'' [] =
       (Inl (ClosureStylePlaceholder ''{$NAME}'' ''Hi, {$NAME}!''), 0)"
proof -
  have h: "''NAME'' \<noteq> []" "CHR ''}'' \<notin> set ''NAME''" "CHR ''{'' \<notin> set ''Hi, ''"
    by simp_all
  from legacy_placeholder_rejected [OF h(1,2), of 0 "''Hi, ''" "''!''" "[]"] h
  show ?thesis by auto
qed

text \<open>
  C3: the set of names that \<^verbatim>\<open>gatherIcuPlaceholderNames\<close> derives from a template is
  exactly the set of the names \<open>N\<close>, matching \<^verbatim>\<open>[A-Za-z_][A-Za-z0-9_]*\<close>, such that
  \<^verbatim>\<open>{N}\<close> occurs in the template. The right-hand side is a set of strings that depends
  only on which names occur: names that differ in case are different members, and neither
  the order of the occurrences nor their number matters. (\<^verbatim>\<open>lastIndex\<close> is 0 at every
  call, see \<open>lastIndex_after_0\<close>.)
\<close>

theorem gathered_names_are_the_placeholder_names:
  "fst (gatherIcuPlaceholderNames t 0) = spec_placeholder_names t"
proof -
  have "gatherIcuPlaceholderNames_loop t 0 {} = ({} \<union> spec_placeholder_names (drop 0 t), 0)"
    by (rule gather_loop_result) simp
  then show ?thesis
    by (simp add: gatherIcuPlaceholderNames_def)
qed

theorem gathered_names_witness:
  "fst (gatherIcuPlaceholderNames ''{NAME} {name} {NAME}'' 0) =
     spec_placeholder_names ''{NAME} {name} {NAME}''
   \<and> fst (gatherIcuPlaceholderNames ''{NAME} {name} {NAME}'' 0) = {''NAME'', ''name''}
   \<and> fst (gatherIcuPlaceholderNames ''{name} {NAME}'' 0) = {''NAME'', ''name''}"
proof (intro conjI)
  show "fst (gatherIcuPlaceholderNames ''{NAME} {name} {NAME}'' 0) =
     spec_placeholder_names ''{NAME} {name} {NAME}''"
    by (rule gathered_names_are_the_placeholder_names)
  show "fst (gatherIcuPlaceholderNames ''{NAME} {name} {NAME}'' 0) = {''NAME'', ''name''}"
    by code_simp
  show "fst (gatherIcuPlaceholderNames ''{name} {NAME}'' 0) = {''NAME'', ''name''}"
    by code_simp
qed

text \<open>
  C4: an options record without a description fails validation (not compiled), and so
  does one whose description is present and is not text. When the template has no legacy
  placeholder the failure is \<^verbatim>\<open>no description supplied\<close> or \<^verbatim>\<open>invalid description\<close>;
  otherwise the legacy placeholder is reported first.
\<close>

theorem description_required:
  assumes "map_of options ''description'' = None \<or>
           (\<exists>v. map_of options ''description'' = Some v \<and> \<not> is_text v)"
  shows "\<exists>e. fst (declareIcuTemplate False lastIndex t options) = Inl e \<and>
           (\<not> has_legacy_placeholder t \<longrightarrow>
              e = NoDescription \<or> e = InvalidDescription (js_get options ''description''))"
proof -
  from assms have d: "typeof (js_get options ''description'') \<noteq> ''string''"
    by (auto simp: js_get_def is_text_typeof)
  show ?thesis
  proof (cases "CLOSURE_PLACEHOLDER_RE_exec t")
    case None
    with d show ?thesis
      unfolding declare_uncompiled by (simp add: Let_def)
  next
    case (Some p)
    then show ?thesis
      unfolding declare_uncompiled by (simp add: has_legacy_iff)
  qed
qed

theorem description_required_witness:
  "map_of [(''meaning'', JStr ''m'')] ''description'' = None
   \<and> fst (declareIcuTemplate False 0 ''Hi'' [(''meaning'', JStr ''m'')]) = Inl NoDescription
   \<and> map_of [(''description'', JNum 7)] ''description'' = Some (JNum 7)
   \<and> fst (declareIcuTemplate False 0 ''Hi'' [(''description'', JNum 7)]) =
       Inl (InvalidDescription (JNum 7))"
proof -
  have a: "map_of [(''meaning'', JStr ''m'')] ''description'' = None" by simp
  have b: "map_of [(''description'', JNum 7)] ''description'' = Some (JNum 7)" by simp
  have n: "\<not> has_legacy_placeholder ''Hi''" by (simp add: has_legacy_iff)
  from description_required [of "[(''meaning'', JStr ''m'')]" 0 "''Hi''"] a n
  have "fst (declareIcuTemplate False 0 ''Hi'' [(''meaning'', JStr ''m'')]) = Inl NoDescription
    \<or> fst (declareIcuTemplate False 0 ''Hi'' [(''meaning'', JStr ''m'')]) =
        Inl (InvalidDescription (js_get [(''meaning'', JStr ''m'')] ''description''))"
    by auto
  moreover have "fst (declareIcuTemplate False 0 ''Hi'' [(''meaning'', JStr ''m'')]) \<noteq>
        Inl (InvalidDescription (js_get [(''meaning'', JStr ''m'')] ''description''))"
    by code_simp
  ultimately have c: "fst (declareIcuTemplate False 0 ''Hi'' [(''meaning'', JStr ''m'')]) =
      Inl NoDescription"
    by blast
  have d: "fst (declareIcuTemplate False 0 ''Hi'' [(''description'', JNum 7)]) =
       Inl (InvalidDescription (JNum 7))"
    by code_simp
  from a b c d show ?thesis by blast
qed

text \<open>
  C5 (as amended): an options record whose meaning is truthy (present, and none of
  \<^verbatim>\<open>null\<close>, \<^verbatim>\<open>false\<close>, 0, NaN and the empty string) and is not text fails
  validation (not compiled); the failure is \<^verbatim>\<open>invalid meaning\<close> when the template has
  no legacy placeholder and the description is valid.
\<close>

theorem truthy_meaning_must_be_text:
  assumes "truthy (js_get options ''meaning'')"
    and "\<not> is_text (js_get options ''meaning'')"
  shows "\<exists>e. fst (declareIcuTemplate False lastIndex t options) = Inl e \<and>
           (\<not> has_legacy_placeholder t \<and> description_valid options \<longrightarrow>
              e = InvalidMeaning (js_get options ''meaning''))"
proof (cases "CLOSURE_PLACEHOLDER_RE_exec t")
  case None
  show ?thesis
  proof (cases "description_valid options")
    case True
    from description_valid_checks [OF True] None assms show ?thesis
      unfolding declare_uncompiled by (simp add: Let_def is_text_typeof)
  next
    case False
    with None assms show ?thesis
      unfolding declare_uncompiled by (simp add: Let_def is_text_typeof)
  qed
next
  case (Some p)
  then show ?thesis
    unfolding declare_uncompiled by (simp add: has_legacy_iff)
qed

theorem truthy_meaning_must_be_text_witness:
  "truthy (js_get [(''description'', JStr ''d''), (''meaning'', JNum 5)] ''meaning'')
   \<and> \<not> is_text (js_get [(''description'', JStr ''d''), (''meaning'', JNum 5)] ''meaning'')
   \<and> fst (declareIcuTemplate False 0 ''Hi'' [(''description'', JStr ''d''), (''meaning'', JNum 5)])
       = Inl (InvalidMeaning (JNum 5))"
proof -
  let ?options = "[(''description'', JStr ''d''), (''meaning'', JNum 5)]"
  have g: "js_get ?options ''meaning'' = JNum 5" by (simp add: js_get_def)
  have h1: "truthy (js_get ?options ''meaning'')" "\<not> is_text (js_get ?options ''meaning'')"
    by (simp_all add: g)
  have h2: "\<not> has_legacy_placeholder ''Hi''" by (simp add: has_legacy_iff)
  have h3: "description_valid ?options" by (simp add: description_valid_def js_get_def)
  from truthy_meaning_must_be_text [OF h1, of 0 "''Hi''"] h1 h2 h3 g show ?thesis
    by auto
qed

text \<open>
  Counterexample to the first form of that statement, which lets every present meaning
  that is not text fail: the meaning 0 is present and is not text, and the call returns
  the template, because the source tests \<^verbatim>\<open>!meaning || typeof meaning == 'string'\<close>.
\<close>

theorem falsy_meaning_counterexample:
  "map_of [(''description'', JStr ''d''), (''meaning'', JNum 0)] ''meaning'' = Some (JNum 0)
   \<and> \<not> is_text (JNum 0)
   \<and> declareIcuTemplate False 0 ''Hi'' [(''description'', JStr ''d''), (''meaning'', JNum 0)]
       = (Inr ''Hi'', 0)"
  by code_simp

text \<open>
  C6 (as amended): the check of a map walks its keys in the order of
  \<^verbatim>\<open>Object.keys\<close> and fails at the first key that is not a derived placeholder name
  (naming the map and the key) or whose value is not text (naming the map, the key and the
  value); a map all of whose keys are derived placeholder names with text values causes no
  failure. For each of \<^verbatim>\<open>example\<close> and \<^verbatim>\<open>original_code\<close>, if the field holds a map
  with such a key, validation (not compiled) fails; the failure it reports is the one of
  the map's check when the template has no legacy placeholder, the description and the
  meaning are valid and, for \<^verbatim>\<open>original_code\<close>, the \<^verbatim>\<open>example\<close> field is valid.
\<close>

theorem placeholder_maps_checked:
  "assertValidPlaceholderMap mapName m names =
     (case find (offending_key names m) (Object_keys m) of
        None \<Rightarrow> Inr ()
      | Some k \<Rightarrow>
          if k \<in> names then Inl (InvalidPlaceholderValue mapName k (js_get m k))
          else Inl (UnknownPlaceholder mapName k))
   \<and> (placeholder_map_valid names m \<longrightarrow> assertValidPlaceholderMap mapName m names = Inr ())
   \<and> ((field = ''example'' \<or> field = ''original_code'') \<and> js_get options field = JObj m
        \<and> k \<in> set (Object_keys m)
        \<and> offending_key (fst (gatherIcuPlaceholderNames t 0)) m k
      \<longrightarrow> (\<exists>e. fst (declareIcuTemplate False 0 t options) = Inl e))
   \<and> (\<not> has_legacy_placeholder t \<and> description_valid options \<and> meaning_valid options
        \<and> js_get options ''example'' = JObj m
        \<and> assertValidPlaceholderMap ''example'' m (fst (gatherIcuPlaceholderNames t 0)) = Inl e
      \<longrightarrow> fst (declareIcuTemplate False 0 t options) = Inl e)
   \<and> (\<not> has_legacy_placeholder t \<and> description_valid options \<and> meaning_valid options
        \<and> map_field_valid (fst (gatherIcuPlaceholderNames t 0)) options ''example''
        \<and> js_get options ''original_code'' = JObj m
        \<and> assertValidPlaceholderMap ''original_code'' m (fst (gatherIcuPlaceholderNames t 0))
            = Inl e
      \<longrightarrow> fst (declareIcuTemplate False 0 t options) = Inl e)"
proof (intro conjI impI)
  show "assertValidPlaceholderMap mapName m names =
     (case find (offending_key names m) (Object_keys m) of
        None \<Rightarrow> Inr ()
      | Some k \<Rightarrow>
          if k \<in> names then Inl (InvalidPlaceholderValue mapName k (js_get m k))
          else Inl (UnknownPlaceholder mapName k))"
    by (rule map_check_find)
next
  assume "placeholder_map_valid names m"
  from valid_map_no_offender [OF this]
  show "assertValidPlaceholderMap mapName m names = Inr ()"
    by (simp add: map_check_find)
next
  assume a: "(field = ''example'' \<or> field = ''original_code'') \<and> js_get options field = JObj m
        \<and> k \<in> set (Object_keys m)
        \<and> offending_key (fst (gatherIcuPlaceholderNames t 0)) m k"
  then obtain e' where
    e': "assertValidPlaceholderMap field m (fst (gatherIcuPlaceholderNames t 0)) = Inl e'"
    using map_check_offender by blast
  from a have "field = ''example'' \<or> field = ''original_code''" by blast
  then show "\<exists>e. fst (declareIcuTemplate False 0 t options) = Inl e"
  proof
    assume "field = ''example''"
    with a e' declare_fails_in_example show ?thesis by blast
  next
    assume "field = ''original_code''"
    with a e' declare_fails_in_original_code show ?thesis by blast
  qed
next
  assume "\<not> has_legacy_placeholder t \<and> description_valid options \<and> meaning_valid options
        \<and> js_get options ''example'' = JObj m
        \<and> assertValidPlaceholderMap ''example'' m (fst (gatherIcuPlaceholderNames t 0)) = Inl e"
  then show "fst (declareIcuTemplate False 0 t options) = Inl e"
    using declare_reports_example by blast
next
  assume "\<not> has_legacy_placeholder t \<and> description_valid options \<and> meaning_valid options
        \<and> map_field_valid (fst (gatherIcuPlaceholderNames t 0)) options ''example''
        \<and> js_get options ''original_code'' = JObj m
        \<and> assertValidPlaceholderMap ''original_code'' m (fst (gatherIcuPlaceholderNames t 0))
            = Inl e"
  then show "fst (declareIcuTemplate False 0 t options) = Inl e"
    using declare_reports_original_code by blast
qed

theorem placeholder_maps_checked_witness:
  "fst (declareIcuTemplate False 0 ''{A} and {B}''
          [(''description'', JStr ''d''),
           (''example'', JObj [(''A'', JStr ''x''), (''B'', JNum 1), (''C'', JStr ''z'')])])
     = Inl (InvalidPlaceholderValue ''example'' ''B'' (JNum 1))
   \<and> fst (declareIcuTemplate False 0 ''{A} and {B}''
          [(''description'', JStr ''d''),
           (''original_code'', JObj [(''A'', JStr ''x''), (''C'', JStr ''z'')])])
     = Inl (UnknownPlaceholder ''original_code'' ''C'')
   \<and> assertValidPlaceholderMap ''example'' [(''A'', JStr ''x''), (''B'', JStr ''y'')]
        (fst (gatherIcuPlaceholderNames ''{A} and {B}'' 0)) = Inr ()"
proof -
  let ?t = "''{A} and {B}''"
  let ?names = "fst (gatherIcuPlaceholderNames ?t 0)"
  let ?m1 = "[(''A'', JStr ''x''), (''B'', JNum 1), (''C'', JStr ''z'')]"
  let ?m2 = "[(''A'', JStr ''x''), (''C'', JStr ''z'')]"
  let ?m3 = "[(''A'', JStr ''x''), (''B'', JStr ''y'')]"
  let ?o1 = "[(''description'', JStr ''d''), (''example'', JObj ?m1)]"
  let ?o2 = "[(''description'', JStr ''d''), (''original_code'', JObj ?m2)]"
  have "CLOSURE_PLACEHOLDER_RE_exec ?t = None" by code_simp
  then have h1: "\<not> has_legacy_placeholder ?t" by (simp add: has_legacy_iff)
  have h2: "description_valid ?o1 \<and> meaning_valid ?o1 \<and> js_get ?o1 ''example'' = JObj ?m1"
    by code_simp
  have h3: "assertValidPlaceholderMap ''example'' ?m1 ?names =
      Inl (InvalidPlaceholderValue ''example'' ''B'' (JNum 1))"
    by code_simp
  have h4: "description_valid ?o2 \<and> meaning_valid ?o2 \<and> map_field_valid ?names ?o2 ''example''
      \<and> js_get ?o2 ''original_code'' = JObj ?m2"
    by code_simp
  have h5: "assertValidPlaceholderMap ''original_code'' ?m2 ?names =
      Inl (UnknownPlaceholder ''original_code'' ''C'')"
    by code_simp
  have h6: "placeholder_map_valid ?names ?m3" by code_simp
  from placeholder_maps_checked
         [of "''example''" ?m1 ?names "''example''" ?o1 "''B''" ?t
             "InvalidPlaceholderValue ''example'' ''B'' (JNum 1)"] h1 h2 h3
  have a: "fst (declareIcuTemplate False 0 ?t ?o1) =
      Inl (InvalidPlaceholderValue ''example'' ''B'' (JNum 1))"
    by blast
  from placeholder_maps_checked
         [of "''original_code''" ?m2 ?names "''original_code''" ?o2 "''C''" ?t
             "UnknownPlaceholder ''original_code'' ''C''"] h1 h4 h5
  have b: "fst (declareIcuTemplate False 0 ?t ?o2) = Inl (UnknownPlaceholder ''original_code'' ''C'')"
    by blast
  from placeholder_maps_checked [of "''example''" ?m3 ?names] h6
  have c: "assertValidPlaceholderMap ''example'' ?m3 ?names = Inr ()"
    by blast
  from a b c show ?thesis by blast
qed

text \<open>
  Counterexample to the first form of that statement, which lets validation name every
  key that is not a derived placeholder name: of the two unknown keys \<open>B\<close> and \<open>C\<close> of
  an \<^verbatim>\<open>example\<close> map only the first is named, since the first failure ends the
  validation.
\<close>

theorem later_key_not_named_counterexample:
  "''C'' \<in> set (Object_keys [(''B'', JStr ''y''), (''C'', JStr ''z'')])
   \<and> ''C'' \<notin> fst (gatherIcuPlaceholderNames ''Hi, {A}'' 0)
   \<and> fst (declareIcuTemplate False 0 ''Hi, {A}''
            [(''description'', JStr ''d''),
             (''example'', JObj [(''B'', JStr ''y''), (''C'', JStr ''z'')])])
       = Inl (UnknownPlaceholder ''example'' ''B'')
   \<and> UnknownPlaceholder ''example'' ''B'' \<noteq> UnknownPlaceholder ''example'' ''C''"
  by code_simp

text \<open>
  C7 (as amended): an options record with a field whose name is not one of
  \<^verbatim>\<open>description\<close>, \<^verbatim>\<open>meaning\<close>, \<^verbatim>\<open>example\<close> and \<^verbatim>\<open>original_code\<close> fails
  validation (not compiled); when the template and the four recognized fields satisfy
  the invariants of the data model, the failure names the first unrecognized field in the
  order of \<^verbatim>\<open>Object.keys\<close>.
\<close>

theorem unknown_option_rejected:
  "(k \<in> set (Object_keys options) \<and> unrecognized k
      \<longrightarrow> (\<exists>e. fst (declareIcuTemplate False lastIndex t options) = Inl e))
   \<and> (\<not> has_legacy_placeholder t \<and> description_valid options \<and> meaning_valid options
        \<and> map_field_valid (fst (gatherIcuPlaceholderNames t 0)) options ''example''
        \<and> map_field_valid (fst (gatherIcuPlaceholderNames t 0)) options ''original_code''
        \<and> find unrecognized (Object_keys options) = Some k
      \<longrightarrow> fst (declareIcuTemplate False 0 t options) = Inl (UnknownOptionName k))"
proof (intro conjI impI)
  assume a: "k \<in> set (Object_keys options) \<and> unrecognized k"
  then have "find unrecognized (Object_keys options) \<noteq> None"
    by (auto simp: find_None_iff)
  then have "assertOptionNames (Object_keys options) \<noteq> Inr ()"
    by (auto simp: assertOptionNames_find split: option.splits)
  with declare_returns_D(7) [of lastIndex t options t]
  have "fst (declareIcuTemplate False lastIndex t options) \<noteq> Inr t" by blast
  with declare_fails_or_returns [of lastIndex t options]
  show "\<exists>e. fst (declareIcuTemplate False lastIndex t options) = Inl e" by blast
next
  assume a: "\<not> has_legacy_placeholder t \<and> description_valid options \<and> meaning_valid options
        \<and> map_field_valid (fst (gatherIcuPlaceholderNames t 0)) options ''example''
        \<and> map_field_valid (fst (gatherIcuPlaceholderNames t 0)) options ''original_code''
        \<and> find unrecognized (Object_keys options) = Some k"
  then have n: "CLOSURE_PLACEHOLDER_RE_exec t = None" by (simp add: has_legacy_iff)
  from a have d: "description_valid options" and m: "meaning_valid options"
    and ex: "map_field_valid (fst (gatherIcuPlaceholderNames t 0)) options ''example''"
    and oc: "map_field_valid (fst (gatherIcuPlaceholderNames t 0)) options ''original_code''"
    and f: "find unrecognized (Object_keys options) = Some k"
    by blast+
  from n description_valid_checks [OF d] meaning_valid_checks [OF m]
    option_check_valid [OF ex, of "''example''"] option_check_valid [OF oc, of "''original_code''"] f
  show "fst (declareIcuTemplate False 0 t options) = Inl (UnknownOptionName k)"
    unfolding declare_uncompiled by (simp add: Let_def assertOptionNames_find)
qed

theorem unknown_option_rejected_witness:
  "''foo'' \<in> set (Object_keys [(''description'', JStr ''d''), (''foo'', JNum 1)])
   \<and> unrecognized ''foo''
   \<and> fst (declareIcuTemplate False 0 ''Hi''
            [(''description'', JStr ''d''), (''foo'', JNum 1)]) = Inl (UnknownOptionName ''foo'')"
proof -
  let ?o = "[(''description'', JStr ''d''), (''foo'', JNum 1)]"
  have "CLOSURE_PLACEHOLDER_RE_exec ''Hi'' = None" by code_simp
  then have h1: "\<not> has_legacy_placeholder ''Hi''" by (simp add: has_legacy_iff)
  have h2: "description_valid ?o \<and> meaning_valid ?o
      \<and> map_field_valid (fst (gatherIcuPlaceholderNames ''Hi'' 0)) ?o ''example''
      \<and> map_field_valid (fst (gatherIcuPlaceholderNames ''Hi'' 0)) ?o ''original_code''
      \<and> find unrecognized (Object_keys ?o) = Some ''foo''"
    by code_simp
  have h3: "''foo'' \<in> set (Object_keys ?o) \<and> unrecognized ''foo''" by code_simp
  from unknown_option_rejected [of "''foo''" ?o 0 "''Hi''"] h1 h2 h3 show ?thesis by blast
qed

text \<open>
  Counterexample to the first form of that statement, which lets validation name every
  unrecognized field: of the two unrecognized fields \<open>foo\<close> and \<open>bar\<close> only the first is
  named, and a record that has the field \<open>foo\<close> and no description fails with
  \<^verbatim>\<open>no description supplied\<close>, since the first failure ends the validation.
\<close>

theorem second_unknown_option_counterexample:
  "''bar'' \<in> set (Object_keys [(''description'', JStr ''d''), (''foo'', JNum 1), (''bar'', JNum 2)])
   \<and> ''bar'' \<notin> VALID_OPTIONS
   \<and> fst (declareIcuTemplate False 0 ''Hi''
            [(''description'', JStr ''d''), (''foo'', JNum 1), (''bar'', JNum 2)])
       = Inl (UnknownOptionName ''foo'')
   \<and> UnknownOptionName ''foo'' \<noteq> UnknownOptionName ''bar''
   \<and> ''foo'' \<in> set (Object_keys [(''foo'', JNum 1)])
   \<and> ''foo'' \<notin> VALID_OPTIONS
   \<and> fst (declareIcuTemplate False 0 ''Hi'' [(''foo'', JNum 1)]) = Inl NoDescription"
  by code_simp

text \<open>
  C8: with the flag \<^verbatim>\<open>COMPILED\<close> set, \<^verbatim>\<open>declareIcuTemplate\<close> runs no check: for every
  template string and every options record, also invalid ones, it returns the template
  string unchanged, does not fail, and leaves the state of the module as it was.
\<close>

theorem compiled_is_pass_through:
  "declareIcuTemplate True lastIndex templateString options = (Inr templateString, lastIndex)"
  by (simp add: declareIcuTemplate_def assertDeclareIcuTemplateParametersAreValid_def)

theorem compiled_is_pass_through_witness:
  "declareIcuTemplate True 0 ''Hi, {$NAME}!'' [(''foo'', JNum 1)] = (Inr ''Hi, {$NAME}!'', 0)"
  using compiled_is_pass_through [of 0 "''Hi, {$NAME}!''" "[(''foo'', JNum 1)]"] by simp

text \<open>
  C9: validation gives the same answer at every call. If a call on a template and an
  options record succeeds in the freshly loaded module, then it returned the template,
  and after that call and any further calls of \<^verbatim>\<open>declareIcuTemplate\<close> (with any
  arguments, successful or not) a call on the same pair succeeds again and returns the same
  template: the \<^verbatim>\<open>lastIndex\<close> of the global regular expression is 0 again after every
  call.
\<close>

theorem repeated_calls_agree:
  assumes "fst (declareIcuTemplate COMPILED 0 t options) = Inr r"
  shows "r = t \<and>
         declareIcuTemplate COMPILED (lastIndex_after COMPILED 0 ((t, options) # calls)) t options
           = (Inr t, lastIndex_after COMPILED 0 ((t, options) # calls))"
proof -
  from assms have r: "r = t"
    by (auto simp: declareIcuTemplate_def split: prod.splits sum.splits)
  have "lastIndex_after COMPILED 0 ((t, options) # calls) = 0"
    by (rule lastIndex_after_0)
  moreover from assms r declare_lastIndex_0 [of COMPILED t options]
  have "declareIcuTemplate COMPILED 0 t options = (Inr t, 0)"
    by (cases "declareIcuTemplate COMPILED 0 t options") simp
  ultimately show ?thesis using r by simp
qed

theorem repeated_calls_agree_witness:
  "fst (declareIcuTemplate False 0 ''Hi, {NAME}!''
          [(''description'', JStr ''greets user''),
           (''example'', JObj [(''NAME'', JStr ''Jane'')])]) = Inr ''Hi, {NAME}!''
   \<and> fst (declareIcuTemplate False
          (lastIndex_after False 0
             [(''Hi, {NAME}!'',
               [(''description'', JStr ''greets user''),
                (''example'', JObj [(''NAME'', JStr ''Jane'')])]),
              (''{A} {$B} {C}'', []), (''{A} {B'', [])])
          ''Hi, {NAME}!''
          [(''description'', JStr ''greets user''),
           (''example'', JObj [(''NAME'', JStr ''Jane'')])]) = Inr ''Hi, {NAME}!''"
proof -
  have h: "fst (declareIcuTemplate False 0 ''Hi, {NAME}!''
          [(''description'', JStr ''greets user''),
           (''example'', JObj [(''NAME'', JStr ''Jane'')])]) = Inr ''Hi, {NAME}!''"
    by code_simp
  from repeated_calls_agree [OF h, of "[(''{A} {$B} {C}'', []), (''{A} {B'', [])]"] h
  show ?thesis by simp
qed

text \<open>
  C10: the legacy-placeholder check fails if and only if the template contains
  \<^verbatim>\<open>{$\<close>, then one or more characters other than a closing brace, then a closing brace.
  What stands between need not be a name: \<^verbatim>\<open>{$ !}\<close> fails. The unterminated
  \<^verbatim>\<open>{$NAME\<close> passes.
\<close>

theorem legacy_check_fails_iff:
  "((\<exists>e. assertNoClosureStylePlaceholdersInIcuTemplate t = Inl e) \<longleftrightarrow>
    (\<exists>pre w post. w \<noteq> [] \<and> CHR ''}'' \<notin> set w \<and> t = pre @ ''{$'' @ w @ ''}'' @ post))
   \<and> (\<exists>e. assertNoClosureStylePlaceholdersInIcuTemplate ''{$ !}'' = Inl e)
   \<and> assertNoClosureStylePlaceholdersInIcuTemplate ''{$NAME'' = Inr ()"
proof (intro conjI)
  have "(\<exists>e. assertNoClosureStylePlaceholdersInIcuTemplate t = Inl e) \<longleftrightarrow>
      CLOSURE_PLACEHOLDER_RE_exec t \<noteq> None"
    by (cases "CLOSURE_PLACEHOLDER_RE_exec t")
      (simp_all add: assertNoClosure_None assertNoClosure_Some)
  also have "\<dots> \<longleftrightarrow> (\<exists>p. legacy_placeholder p \<and> occurs_in p t)"
    by (simp add: CLOSURE_exec_None_iff)
  also have "\<dots> \<longleftrightarrow>
      (\<exists>pre w post. w \<noteq> [] \<and> CHR ''}'' \<notin> set w \<and> t = pre @ ''{$'' @ w @ ''}'' @ post)"
  proof
    assume "\<exists>p. legacy_placeholder p \<and> occurs_in p t"
    then obtain w pre post where "w \<noteq> []" "CHR ''}'' \<notin> set w"
      "t = pre @ (''{$'' @ w @ ''}'') @ post"
      unfolding legacy_placeholder_def occurs_in_def by auto
    then have "w \<noteq> [] \<and> CHR ''}'' \<notin> set w \<and> t = pre @ ''{$'' @ w @ ''}'' @ post"
      by simp
    then show "\<exists>pre w post. w \<noteq> [] \<and> CHR ''}'' \<notin> set w \<and>
        t = pre @ ''{$'' @ w @ ''}'' @ post"
      by blast
  next
    assume "\<exists>pre w post. w \<noteq> [] \<and> CHR ''}'' \<notin> set w \<and>
        t = pre @ ''{$'' @ w @ ''}'' @ post"
    then obtain pre w post where w: "w \<noteq> []" "CHR ''}'' \<notin> set w"
      and "t = pre @ ''{$'' @ w @ ''}'' @ post"
      by blast
    then have "t = pre @ (''{$'' @ w @ ''}'') @ post" by simp
    then have "occurs_in (''{$'' @ w @ ''}'') t" unfolding occurs_in_def by blast
    moreover from w have "legacy_placeholder (''{$'' @ w @ ''}'')"
      unfolding legacy_placeholder_def by blast
    ultimately show "\<exists>p. legacy_placeholder p \<and> occurs_in p t" by blast
  qed
  finally show "(\<exists>e. assertNoClosureStylePlaceholdersInIcuTemplate t = Inl e) \<longleftrightarrow>
    (\<exists>pre w post. w \<noteq> [] \<and> CHR ''}'' \<notin> set w \<and> t = pre @ ''{$'' @ w @ ''}'' @ post)" .
next
  have "CLOSURE_PLACEHOLDER_RE_exec ''{$ !}'' = Some ''{$ !}''"
    by (simp add: not_close_brace_def)
  then show "\<exists>e. assertNoClosureStylePlaceholdersInIcuTemplate ''{$ !}'' = Inl e"
    by (simp add: assertNoClosure_Some)
next
  have "CLOSURE_PLACEHOLDER_RE_exec ''{$NAME'' = None"
    by (simp add: not_close_brace_def)
  then show "assertNoClosureStylePlaceholdersInIcuTemplate ''{$NAME'' = Inr ()"
    by (rule assertNoClosure_None)
qed

theorem legacy_check_fails_iff_witness:
  "assertNoClosureStylePlaceholdersInIcuTemplate ''Hi {$ !}.'' =
     Inl (ClosureStylePlaceholder ''{$ !}'' ''Hi {$ !}.'')
   \<and> (\<exists>pre w post. w \<noteq> [] \<and> CHR ''}'' \<notin> set w \<and> ''Hi {$ !}.'' = pre @ ''{$'' @ w @ ''}'' @ post)"
proof -
  have a: "assertNoClosureStylePlaceholdersInIcuTemplate ''Hi {$ !}.'' =
     Inl (ClosureStylePlaceholder ''{$ !}'' ''Hi {$ !}.'')"
    by (simp add: assertNoClosureStylePlaceholdersInIcuTemplate_def assert_def
        not_close_brace_def)
  then have "\<exists>e. assertNoClosureStylePlaceholdersInIcuTemplate ''Hi {$ !}.'' = Inl e"
    by blast
  with legacy_check_fails_iff [of "''Hi {$ !}.''"] a show ?thesis by blast
qed

end
